theory Spec2Isabelle
  imports Complex_Main "HOL-Library.Sublist" "HOL-Library.Log_Nat"
begin

section \<open>The pizza configurator of \<open>src/pages/CreatePizzaPage.tsx\<close>\<close>

text \<open>
  The component \<open>CreatePizzaPage\<close> keeps three pieces of React state
  (\<open>selectedPizzaSize\<close>, \<open>selectedPizzaCrust\<close>, \<open>selectedToppings\<close>), derives prices and
  eligibility from them, and reacts to a size that cannot hold the chosen toppings through a
  \<open>useEffect\<close>. Each closure of the component becomes a function of the props it reads and of
  the state record.

  Numbers: a TypeScript \<open>number\<close> that the code only compares with an array length
  (\<open>maxFreeToppings\<close>, \<open>maxToppings\<close>) is an \<open>int\<close>, negative values included. The price
  per topping is only handed back and is a \<open>rat\<close>. The price of a size enters a division and
  a multiplication, so it is a \<open>jsnumber\<close>: an IEEE 754 double, with each operation rounded
  to the nearest double.
\<close>

subsection \<open>Numbers\<close>

text \<open>
  A double is a finite value (a rational \<open>m * 2 ^ e\<close> with \<open>\<bar>m\<bar> < 2 ^ 53\<close> and
  \<open>- 1074 \<le> e \<le> 971\<close>), \<open>NaN\<close> or an infinity. The sign of a zero is not kept: \<open>Finite 0\<close>
  stands for both zeros, and is read as \<open>+0\<close> where it is a divisor.
\<close>

datatype jsnumber = Finite rat | NaN | PosInfinity | NegInfinity

text \<open>The nearest integer, a tie going to the even one.\<close>

definition roundHalfEven :: "rat \<Rightarrow> int" where
  "roundHalfEven t =
     (let f = \<lfloor>t\<rfloor>; d = t - of_int f
      in if d < 1 / 2 then f else if 1 / 2 < d then f + 1
         else if even f then f else f + 1)"

text \<open>
  The binary exponent of a positive rational \<open>p / q\<close>, that is \<open>\<lfloor>log\<^sub>2 (p / q)\<rfloor>\<close>: the
  difference of the bit lengths of \<open>p\<close> and \<open>q\<close>, or one less.
\<close>

definition floorLog2 :: "rat \<Rightarrow> int" where
  "floorLog2 x =
     (let (p, q) = quotient_of x; d = bitlen p - bitlen q
      in if 2 powi d \<le> x then d else d - 1)"

definition overflowThreshold :: rat where
  "overflowThreshold = 2 powi 1024"

text \<open>
  Rounding an exact result to a double (binary64, round to nearest, ties to even): 53
  significant bits, so the spacing at binary exponent \<open>e\<close> is \<open>2 ^ (e - 52)\<close>; below the
  exponent \<open>- 1022\<close> the spacing stays \<open>2 ^ - 1074\<close> (subnormal numbers, underflow to zero);
  a rounded magnitude of \<open>2 ^ 1024\<close> or more is an infinity.
\<close>

definition roundDouble :: "rat \<Rightarrow> jsnumber" where
  "roundDouble x =
     (if x = 0 then Finite 0
      else (let e = max (floorLog2 \<bar>x\<bar>) (- 1022);
                ulp = 2 powi (e - 52);
                y = of_int (roundHalfEven (\<bar>x\<bar> / ulp)) * ulp
            in if overflowThreshold \<le> y then (if 0 < x then PosInfinity else NegInfinity)
               else Finite (sgn x * y)))"

text \<open>The operator \<open>/\<close> on two numbers.\<close>

fun jsDivide :: "jsnumber \<Rightarrow> jsnumber \<Rightarrow> jsnumber" where
  "jsDivide NaN y = NaN"
| "jsDivide x NaN = NaN"
| "jsDivide (Finite a) (Finite b) =
     (if b \<noteq> 0 then roundDouble (a / b)
      else if a = 0 then NaN
      else if 0 < a then PosInfinity else NegInfinity)"
| "jsDivide (Finite a) PosInfinity = Finite 0"
| "jsDivide (Finite a) NegInfinity = Finite 0"
| "jsDivide PosInfinity (Finite b) = (if 0 \<le> b then PosInfinity else NegInfinity)"
| "jsDivide NegInfinity (Finite b) = (if 0 \<le> b then NegInfinity else PosInfinity)"
| "jsDivide PosInfinity PosInfinity = NaN"
| "jsDivide PosInfinity NegInfinity = NaN"
| "jsDivide NegInfinity PosInfinity = NaN"
| "jsDivide NegInfinity NegInfinity = NaN"

text \<open>The operator \<open>*\<close> on two numbers.\<close>

fun jsTimes :: "jsnumber \<Rightarrow> jsnumber \<Rightarrow> jsnumber" where
  "jsTimes NaN y = NaN"
| "jsTimes x NaN = NaN"
| "jsTimes (Finite a) (Finite b) = roundDouble (a * b)"
| "jsTimes (Finite a) PosInfinity =
     (if a = 0 then NaN else if 0 < a then PosInfinity else NegInfinity)"
| "jsTimes (Finite a) NegInfinity =
     (if a = 0 then NaN else if 0 < a then NegInfinity else PosInfinity)"
| "jsTimes PosInfinity (Finite b) =
     (if b = 0 then NaN else if 0 < b then PosInfinity else NegInfinity)"
| "jsTimes NegInfinity (Finite b) =
     (if b = 0 then NaN else if 0 < b then NegInfinity else PosInfinity)"
| "jsTimes PosInfinity PosInfinity = PosInfinity"
| "jsTimes PosInfinity NegInfinity = NegInfinity"
| "jsTimes NegInfinity PosInfinity = NegInfinity"
| "jsTimes NegInfinity NegInfinity = PosInfinity"

text \<open>
  \<open>Math.max\<close>: it starts from \<open>-Infinity\<close> and takes the arguments one by one; a \<open>NaN\<close>
  among them makes the result \<open>NaN\<close>.
\<close>

fun jsMax :: "jsnumber \<Rightarrow> jsnumber \<Rightarrow> jsnumber" where
  "jsMax NaN y = NaN"
| "jsMax x NaN = NaN"
| "jsMax PosInfinity y = PosInfinity"
| "jsMax x PosInfinity = PosInfinity"
| "jsMax NegInfinity y = y"
| "jsMax x NegInfinity = x"
| "jsMax (Finite a) (Finite b) = Finite (max a b)"

definition mathMax :: "jsnumber list \<Rightarrow> jsnumber" where
  "mathMax xs = fold jsMax xs NegInfinity"

subsection \<open>Data\<close>

type_synonym ident = string

text \<open>
  Modelled from the spec: the type declarations of \<open>../models/pizza\<close> (\<open>PizzaSize\<close>,
  \<open>Pizza\<close>) are not among the sources. A size has an identifier, a display name, a price
  and a maximum number of toppings; the code reads \<open>id\<close>, \<open>name\<close>, \<open>price\<close> and
  \<open>maxToppings\<close>. A pizza (the order) has a size id, a crust id and topping ids; the code
  reads \<open>pizza.toppings || []\<close>, so the toppings may be missing.
\<close>

record PizzaSize =
  id :: ident
  name :: string
  price :: jsnumber
  maxToppings :: int

record Pizza =
  size :: ident
  crust :: ident
  toppings :: "ident list option"

text \<open>
  \<open>Record<PizzaSize['id'], PizzaSize>\<close>: an object, kept as the list of its entries so that
  \<open>Object.values\<close> can enumerate it; \<open>pizzaSizes[k]\<close> is \<open>map_of pizzaSizes k\<close>, and
  \<open>None\<close> is JavaScript's \<open>undefined\<close>.
\<close>

type_synonym sizeCatalog = "(ident \<times> PizzaSize) list"

record State =
  selectedPizzaSize :: ident
  selectedPizzaCrust :: ident
  selectedToppings :: "ident list"

datatype error = TypeError

subsection \<open>State initialisation and setters (lines 55-59)\<close>

definition initialState :: "Pizza \<Rightarrow> State" where
  "initialState pizza =
     \<lparr>selectedPizzaSize = size pizza,
      selectedPizzaCrust = crust pizza,
      selectedToppings = (case toppings pizza of None \<Rightarrow> [] | Some ts \<Rightarrow> ts)\<rparr>"

definition setSelectedPizzaSize :: "ident \<Rightarrow> State \<Rightarrow> State" where
  "setSelectedPizzaSize sizeId s = s\<lparr>selectedPizzaSize := sizeId\<rparr>"

definition setSelectedPizzaCrust :: "ident \<Rightarrow> State \<Rightarrow> State" where
  "setSelectedPizzaCrust crustId s = s\<lparr>selectedPizzaCrust := crustId\<rparr>"

definition setSelectedToppings :: "ident list \<Rightarrow> State \<Rightarrow> State" where
  "setSelectedToppings ts s = s\<lparr>selectedToppings := ts\<rparr>"

subsection \<open>Toppings (lines 70-84)\<close>

definition addTopping :: "ident \<Rightarrow> State \<Rightarrow> State" where
  "addTopping ingredientId s =
     setSelectedToppings (selectedToppings s @ [ingredientId]) s"

definition removeTopping :: "ident \<Rightarrow> State \<Rightarrow> State" where
  "removeTopping ingredientId s =
     setSelectedToppings (filter (\<lambda>i. i \<noteq> ingredientId) (selectedToppings s)) s"

definition toggleTopping :: "ident \<Rightarrow> State \<Rightarrow> State" where
  "toggleTopping ingredientId s =
     (if ingredientId \<in> set (selectedToppings s)
      then removeTopping ingredientId s
      else addTopping ingredientId s)"

subsection \<open>Price of an ingredient (lines 86-96)\<close>

text \<open>\<open>Array.prototype.indexOf\<close>: the first position of the element, or \<open>-1\<close>.\<close>

fun indexOf :: "'a list \<Rightarrow> 'a \<Rightarrow> int" where
  "indexOf [] x = -1"
| "indexOf (y # ys) x =
     (if y = x then 0
      else (let r = indexOf ys x in if r < 0 then -1 else r + 1))"

definition getIngredientPrice :: "int \<Rightarrow> rat \<Rightarrow> State \<Rightarrow> ident \<Rightarrow> rat" where
  "getIngredientPrice maxFreeToppings pricePerTopping s ingredientId =
     (if int (length (selectedToppings s)) < maxFreeToppings then 0
      else (let index = indexOf (selectedToppings s) ingredientId
            in if index \<ge> 0 \<and> index < maxFreeToppings then 0 else pricePerTopping))"

subsection \<open>Eligibility of an ingredient (lines 98-104)\<close>

text \<open>
  \<open>pizzaSizes[selectedPizzaSize].maxToppings\<close> has no optional chaining: on a size id
  that the catalog lacks, the property access on \<open>undefined\<close> throws a \<open>TypeError\<close>.
\<close>

definition isIngredientEnabled :: "sizeCatalog \<Rightarrow> State \<Rightarrow> ident \<Rightarrow> error + bool" where
  "isIngredientEnabled pizzaSizes s ingredientId =
     (case map_of pizzaSizes (selectedPizzaSize s) of
        None \<Rightarrow> Inl TypeError
      | Some sz \<Rightarrow>
          Inr (if int (length (selectedToppings s)) < maxToppings sz then True
               else ingredientId \<in> set (selectedToppings s)))"

subsection \<open>The automatic reset (lines 106-111)\<close>

text \<open>
  The condition of the effect. With optional chaining, a size id that the catalog lacks
  gives \<open>undefined\<close>, and \<open>length > undefined\<close> is false.
\<close>

definition exceedsMaxToppings :: "sizeCatalog \<Rightarrow> State \<Rightarrow> bool" where
  "exceedsMaxToppings pizzaSizes s =
     (case map_of pizzaSizes (selectedPizzaSize s) of
        None \<Rightarrow> False
      | Some sz \<Rightarrow> int (length (selectedToppings s)) > maxToppings sz)"

text \<open>One run of the effect's callback.\<close>

definition resetEffect :: "sizeCatalog \<Rightarrow> State \<Rightarrow> State" where
  "resetEffect pizzaSizes s =
     (if exceedsMaxToppings pizzaSizes s then setSelectedToppings [] s else s)"

text \<open>
  The effect depends on \<open>selectedToppings\<close>, and \<open>setSelectedToppings([])\<close> stores a fresh
  array, so a run that resets schedules another render and another run; a run that does not
  reset leaves the state alone and the component is at rest. \<open>None\<close>: the component never
  comes to rest.
\<close>

partial_function (option) settle :: "sizeCatalog \<Rightarrow> State \<Rightarrow> State option" where
  "settle pizzaSizes s =
     (if exceedsMaxToppings pizzaSizes s then settle pizzaSizes (resetEffect pizzaSizes s)
      else Some s)"

subsection \<open>User interaction (lines 125, 142, 175)\<close>

datatype event = SelectSize ident | SelectCrust ident | ToggleTopping ident

text \<open>The click handlers of the three option lists.\<close>

fun onClick :: "event \<Rightarrow> State \<Rightarrow> State" where
  "onClick (SelectSize sizeId) s = setSelectedPizzaSize sizeId s"
| "onClick (SelectCrust crustId) s = setSelectedPizzaCrust crustId s"
| "onClick (ToggleTopping ingredientId) s = toggleTopping ingredientId s"

text \<open>
  A click followed by the effect. The dependencies of the effect are the size, the catalog
  and the toppings: a crust click does not run it, and neither does a click on the size that
  is selected already (the state is kept as it is).
\<close>

fun step :: "sizeCatalog \<Rightarrow> event \<Rightarrow> State \<Rightarrow> State option" where
  "step pizzaSizes (SelectCrust crustId) s = Some (onClick (SelectCrust crustId) s)"
| "step pizzaSizes (SelectSize sizeId) s =
     (if sizeId = selectedPizzaSize s then Some s
      else settle pizzaSizes (onClick (SelectSize sizeId) s))"
| "step pizzaSizes (ToggleTopping ingredientId) s =
     settle pizzaSizes (onClick (ToggleTopping ingredientId) s)"

fun run :: "sizeCatalog \<Rightarrow> event list \<Rightarrow> State \<Rightarrow> State option" where
  "run pizzaSizes [] s = Some s"
| "run pizzaSizes (e # es) s =
     (case step pizzaSizes e s of None \<Rightarrow> None | Some s' \<Rightarrow> run pizzaSizes es s')"

text \<open>Mounting the component: the initial state, then the first run of the effect.\<close>

definition mount :: "sizeCatalog \<Rightarrow> Pizza \<Rightarrow> State option" where
  "mount pizzaSizes pizza = settle pizzaSizes (initialState pizza)"

definition session :: "sizeCatalog \<Rightarrow> Pizza \<Rightarrow> event list \<Rightarrow> State option" where
  "session pizzaSizes pizza es =
     (case mount pizzaSizes pizza of None \<Rightarrow> None | Some s \<Rightarrow> run pizzaSizes es s)"

text \<open>
  The bound of the specification:
  \<open>selectedToppings.length <= pizzaSizes[selectedPizzaSize].maxToppings\<close>, which is not
  defined for a size id that the catalog lacks.
\<close>

definition withinMaxToppings :: "sizeCatalog \<Rightarrow> State \<Rightarrow> bool" where
  "withinMaxToppings pizzaSizes s =
     (case map_of pizzaSizes (selectedPizzaSize s) of
        None \<Rightarrow> False
      | Some sz \<Rightarrow> int (length (selectedToppings s)) \<le> maxToppings sz)"

subsection \<open>Checkout (lines 184-196)\<close>

text \<open>
  The callback \<open>onCheckout\<close> belongs to the caller; it acts on a world \<open>'w\<close> of the caller's.
  The handler passes it the order and touches no setter, so the state comes back as it was.
\<close>

definition checkoutClick :: "(Pizza \<Rightarrow> 'w \<Rightarrow> 'w) \<Rightarrow> State \<Rightarrow> 'w \<Rightarrow> State \<times> 'w" where
  "checkoutClick onCheckout s w =
     (s, onCheckout \<lparr>size = selectedPizzaSize s,
                     crust = selectedPizzaCrust s,
                     toppings = Some (selectedToppings s)\<rparr> w)"

text \<open>A callback that records each call it receives, in order.\<close>

definition recordCall :: "Pizza \<Rightarrow> Pizza list \<Rightarrow> Pizza list" where
  "recordCall p calls = calls @ [p]"

subsection \<open>Relative size of the size pictures (lines 61 and 123)\<close>

definition objectValues :: "sizeCatalog \<Rightarrow> PizzaSize list" where
  "objectValues pizzaSizes = map snd pizzaSizes"

definition maxPrice :: "sizeCatalog \<Rightarrow> jsnumber" where
  "maxPrice pizzaSizes = mathMax (map price (objectValues pizzaSizes))"

text \<open>
  The number \<open>(pizzaSize.price / maxPrice) * 100\<close> of \<open>imageSize\<close>, before the template
  literal appends the percent sign.
\<close>

definition imageSize :: "sizeCatalog \<Rightarrow> PizzaSize \<Rightarrow> jsnumber" where
  "imageSize pizzaSizes pizzaSize =
     jsTimes (jsDivide (price pizzaSize) (maxPrice pizzaSizes)) (Finite 100)"

section \<open>Properties\<close>

subsection \<open>Lists\<close>

lemma indexOf_absent: "x \<notin> set xs \<Longrightarrow> indexOf xs x = -1"
  by (induction xs) (auto simp: Let_def)

lemma indexOf_nonneg: "x \<in> set xs \<Longrightarrow> 0 \<le> indexOf xs x"
  by (induction xs) (auto simp: Let_def)

lemma indexOf_ge_minus1: "-1 \<le> indexOf xs x"
  by (induction xs) (auto simp: Let_def)

lemma indexOf_less_iff_take:
  "x \<in> set xs \<Longrightarrow> indexOf xs x < n \<longleftrightarrow> x \<in> set (take (nat n) xs)"
proof (induction xs arbitrary: n)
  case Nil
  then show ?case by simp
next
  case (Cons y ys)
  show ?case
  proof (cases "y = x")
    case True
    then show ?thesis by (cases "nat n") auto
  next
    case False
    with Cons.prems have mem: "x \<in> set ys" by simp
    then have nn: "0 \<le> indexOf ys x" by (rule indexOf_nonneg)
    have "indexOf (y # ys) x < n \<longleftrightarrow> indexOf ys x < n - 1"
      using False nn by (auto simp: Let_def)
    also have "\<dots> \<longleftrightarrow> x \<in> set (take (nat (n - 1)) ys)"
      by (rule Cons.IH [OF mem])
    also have "\<dots> \<longleftrightarrow> x \<in> set (take (nat n) (y # ys))"
    proof (cases "0 < n")
      case True
      then have "nat n = Suc (nat (n - 1))" by simp
      then show ?thesis using \<open>y \<noteq> x\<close> by simp
    next
      case False
      then show ?thesis by simp
    qed
    finally show ?thesis .
  qed
qed

subsection \<open>Price of an ingredient\<close>

text \<open>
  C1. For a selected ingredient: when fewer toppings are selected than the free allowance
  \<open>N\<close>, the price is 0; otherwise the price is 0 exactly for the ids that stand at a
  position below \<open>N\<close> of the selection order, and the price per topping for every other
  selected id.
\<close>

theorem getIngredientPrice_selected:
  assumes "ingredientId \<in> set (selectedToppings s)"
  shows "getIngredientPrice N p s ingredientId =
           (if int (length (selectedToppings s)) < N then 0
            else if (\<exists>i < length (selectedToppings s).
                       int i < N \<and> selectedToppings s ! i = ingredientId) then 0
            else p)"
proof -
  let ?xs = "selectedToppings s"
  have "(\<exists>i < length ?xs. int i < N \<and> ?xs ! i = ingredientId)
          \<longleftrightarrow> ingredientId \<in> set (take (nat N) ?xs)"
    by (auto simp: in_set_conv_nth)
  moreover have "indexOf ?xs ingredientId < N \<longleftrightarrow> ingredientId \<in> set (take (nat N) ?xs)"
    using assms by (rule indexOf_less_iff_take)
  moreover have "0 \<le> indexOf ?xs ingredientId"
    using assms by (rule indexOf_nonneg)
  ultimately show ?thesis
    by (simp add: getIngredientPrice_def Let_def)
qed

theorem getIngredientPrice_selected_witness:
  "''C'' \<in> set (selectedToppings
       \<lparr>selectedPizzaSize = ''large'', selectedPizzaCrust = ''thin'',
        selectedToppings = [''A'', ''B'', ''C'']\<rparr>)
   \<and> map (getIngredientPrice 2 (3 / 2)
       \<lparr>selectedPizzaSize = ''large'', selectedPizzaCrust = ''thin'',
        selectedToppings = [''A'', ''B'', ''C'']\<rparr>) [''A'', ''B'', ''C''] = [0, 0, 3 / 2]
   \<and> getIngredientPrice 2 (3 / 2)
       \<lparr>selectedPizzaSize = ''large'', selectedPizzaCrust = ''thin'',
        selectedToppings = [''A'']\<rparr> ''A'' = 0"
  using getIngredientPrice_selected [of "''C''"
      "\<lparr>selectedPizzaSize = ''large'', selectedPizzaCrust = ''thin'',
        selectedToppings = [''A'', ''B'', ''C'']\<rparr>" 2 "3 / 2"]
  by (simp add: getIngredientPrice_def Let_def)

text \<open>
  C10. For an ingredient that is not selected, the price is 0 while fewer toppings are
  selected than the free allowance, and the price per topping once the count has reached
  the allowance: \<open>indexOf\<close> gives \<open>-1\<close>, which fails the test \<open>index >= 0\<close>.
\<close>

theorem getIngredientPrice_unselected:
  assumes "ingredientId \<notin> set (selectedToppings s)"
  shows "getIngredientPrice N p s ingredientId =
           (if int (length (selectedToppings s)) < N then 0 else p)"
  using indexOf_absent [OF assms] by (simp add: getIngredientPrice_def)

theorem getIngredientPrice_unselected_witness:
  "''D'' \<notin> set (selectedToppings
       \<lparr>selectedPizzaSize = ''large'', selectedPizzaCrust = ''thin'',
        selectedToppings = [''A'', ''B'']\<rparr>)
   \<and> getIngredientPrice 2 (3 / 2)
       \<lparr>selectedPizzaSize = ''large'', selectedPizzaCrust = ''thin'',
        selectedToppings = [''A'', ''B'']\<rparr> ''D'' = 3 / 2"
  using getIngredientPrice_unselected [of "''D''"
      "\<lparr>selectedPizzaSize = ''large'', selectedPizzaCrust = ''thin'',
        selectedToppings = [''A'', ''B'']\<rparr>" 2 "3 / 2"]
  by simp

subsection \<open>Toggling a topping\<close>

lemma toggleTopping_toppings:
  "selectedToppings (toggleTopping i s) =
     (if i \<in> set (selectedToppings s) then filter (\<lambda>j. j \<noteq> i) (selectedToppings s)
      else selectedToppings s @ [i])"
  by (simp add: toggleTopping_def addTopping_def removeTopping_def setSelectedToppings_def)

lemma toggleTopping_others:
  "selectedPizzaSize (toggleTopping i s) = selectedPizzaSize s"
  "selectedPizzaCrust (toggleTopping i s) = selectedPizzaCrust s"
  by (simp_all add: toggleTopping_def addTopping_def removeTopping_def setSelectedToppings_def)

lemma count_list_filter_neq:
  "count_list (filter (\<lambda>j. j \<noteq> i) xs) k = (if k = i then 0 else count_list xs k)"
  by (induction xs) auto

text \<open>
  C5. Toggling an id that is selected removes it, and the ids that remain keep their order
  (the result is the subsequence of the other ids, each as often as before); toggling an
  id that is not selected appends it at the end; after a toggle the id occurs at most once,
  so an id that is present is never added again.
\<close>

theorem toggleTopping_removes_or_appends:
  "(i \<in> set (selectedToppings s) \<longrightarrow>
      i \<notin> set (selectedToppings (toggleTopping i s))
      \<and> subseq (selectedToppings (toggleTopping i s)) (selectedToppings s)
      \<and> (\<forall>k. k \<noteq> i \<longrightarrow>
            count_list (selectedToppings (toggleTopping i s)) k
              = count_list (selectedToppings s) k))
   \<and> (i \<notin> set (selectedToppings s) \<longrightarrow>
        selectedToppings (toggleTopping i s) = selectedToppings s @ [i])
   \<and> count_list (selectedToppings (toggleTopping i s)) i \<le> 1"
  by (simp add: toggleTopping_toppings count_list_filter_neq count_list_0_iff)

theorem toggleTopping_removes_or_appends_witness:
  "''A'' \<in> set [''A'', ''B'', ''C''] \<and> ''D'' \<notin> set [''A'', ''B'', ''C'']
   \<and> selectedToppings (toggleTopping ''A''
        \<lparr>selectedPizzaSize = ''large'', selectedPizzaCrust = ''thin'',
         selectedToppings = [''A'', ''B'', ''C'']\<rparr>) = [''B'', ''C'']
   \<and> selectedToppings (toggleTopping ''D''
        \<lparr>selectedPizzaSize = ''large'', selectedPizzaCrust = ''thin'',
         selectedToppings = [''A'', ''B'', ''C'']\<rparr>) = [''A'', ''B'', ''C'', ''D'']"
  using toggleTopping_removes_or_appends [of "''A''"
      "\<lparr>selectedPizzaSize = ''large'', selectedPizzaCrust = ''thin'',
        selectedToppings = [''A'', ''B'', ''C'']\<rparr>"]
    toggleTopping_removes_or_appends [of "''D''"
      "\<lparr>selectedPizzaSize = ''large'', selectedPizzaCrust = ''thin'',
        selectedToppings = [''A'', ''B'', ''C'']\<rparr>"]
  by (simp add: toggleTopping_toppings)

text \<open>
  C4, as the specification states it: toggling an id twice gives back the topping list in
  its order. It fails for a selected id that is not the last one: the first toggle removes
  it, the second appends it at the end.
\<close>

theorem toggleTopping_twice_counterexample:
  "selectedToppings (toggleTopping ''A'' (toggleTopping ''A''
      \<lparr>selectedPizzaSize = ''large'', selectedPizzaCrust = ''thin'',
       selectedToppings = [''A'', ''B'']\<rparr>)) = [''B'', ''A'']
   \<and> selectedToppings (toggleTopping ''A'' (toggleTopping ''A''
      \<lparr>selectedPizzaSize = ''large'', selectedPizzaCrust = ''thin'',
       selectedToppings = [''A'', ''B'']\<rparr>)) \<noteq> [''A'', ''B'']"
  by (simp add: toggleTopping_toppings)

text \<open>
  C4, amended. Two toggles of an id in succession, with no reset in between, give back the
  same set of topping ids, and the size and crust. For an id that was not selected the list
  comes back in its order; for an id that was selected the other ids keep their order and
  the id moves to the end.
\<close>

theorem toggleTopping_twice:
  "set (selectedToppings (toggleTopping i (toggleTopping i s))) = set (selectedToppings s)
   \<and> selectedPizzaSize (toggleTopping i (toggleTopping i s)) = selectedPizzaSize s
   \<and> selectedPizzaCrust (toggleTopping i (toggleTopping i s)) = selectedPizzaCrust s
   \<and> (i \<notin> set (selectedToppings s) \<longrightarrow>
        toggleTopping i (toggleTopping i s) = s)
   \<and> (i \<in> set (selectedToppings s) \<longrightarrow>
        selectedToppings (toggleTopping i (toggleTopping i s))
          = filter (\<lambda>j. j \<noteq> i) (selectedToppings s) @ [i])"
proof -
  have absent: "toggleTopping i (toggleTopping i s) = s" if "i \<notin> set (selectedToppings s)"
  proof -
    have "filter (\<lambda>j. j \<noteq> i) (selectedToppings s) = selectedToppings s"
      using that by (auto simp: filter_id_conv)
    then show ?thesis
      using that
      by (simp add: toggleTopping_def addTopping_def removeTopping_def setSelectedToppings_def)
  qed
  have present: "selectedToppings (toggleTopping i (toggleTopping i s))
                   = filter (\<lambda>j. j \<noteq> i) (selectedToppings s) @ [i]"
    if "i \<in> set (selectedToppings s)"
    using that by (simp add: toggleTopping_toppings)
  have "set (selectedToppings (toggleTopping i (toggleTopping i s))) = set (selectedToppings s)"
  proof (cases "i \<in> set (selectedToppings s)")
    case True
    then show ?thesis by (auto simp: present)
  next
    case False
    then show ?thesis by (simp add: absent)
  qed
  then show ?thesis
    using absent present by (simp add: toggleTopping_others)
qed

theorem toggleTopping_twice_witness:
  "''C'' \<notin> set [''A'', ''B''] \<and> ''A'' \<in> set [''A'', ''B'']
   \<and> toggleTopping ''C'' (toggleTopping ''C''
        \<lparr>selectedPizzaSize = ''large'', selectedPizzaCrust = ''thin'',
         selectedToppings = [''A'', ''B'']\<rparr>)
       = \<lparr>selectedPizzaSize = ''large'', selectedPizzaCrust = ''thin'',
          selectedToppings = [''A'', ''B'']\<rparr>
   \<and> selectedToppings (toggleTopping ''A'' (toggleTopping ''A''
        \<lparr>selectedPizzaSize = ''large'', selectedPizzaCrust = ''thin'',
         selectedToppings = [''A'', ''B'']\<rparr>)) = [''B'', ''A'']"
  using toggleTopping_twice [of "''C''"
      "\<lparr>selectedPizzaSize = ''large'', selectedPizzaCrust = ''thin'',
        selectedToppings = [''A'', ''B'']\<rparr>"]
    toggleTopping_twice [of "''A''"
      "\<lparr>selectedPizzaSize = ''large'', selectedPizzaCrust = ''thin'',
        selectedToppings = [''A'', ''B'']\<rparr>"]
  by simp

subsection \<open>Eligibility of an ingredient\<close>

text \<open>
  C6. When the selected size is in the catalog, an ingredient is enabled if and only if
  fewer toppings are selected than the size allows, or the ingredient is selected already.
\<close>

theorem isIngredientEnabled_iff:
  assumes "map_of pizzaSizes (selectedPizzaSize s) = Some sz"
  shows "isIngredientEnabled pizzaSizes s ingredientId =
           Inr (int (length (selectedToppings s)) < maxToppings sz
                \<or> ingredientId \<in> set (selectedToppings s))"
  using assms by (simp add: isIngredientEnabled_def)

theorem isIngredientEnabled_iff_witness:
  "map_of [(''small'', \<lparr>id = ''small'', name = ''Small'', price = Finite 8, maxToppings = 2\<rparr>)]
      (selectedPizzaSize \<lparr>selectedPizzaSize = ''small'', selectedPizzaCrust = ''thin'',
         selectedToppings = [''A'', ''B'']\<rparr>)
     = Some \<lparr>id = ''small'', name = ''Small'', price = Finite 8, maxToppings = 2\<rparr>
   \<and> isIngredientEnabled
        [(''small'', \<lparr>id = ''small'', name = ''Small'', price = Finite 8, maxToppings = 2\<rparr>)]
        \<lparr>selectedPizzaSize = ''small'', selectedPizzaCrust = ''thin'',
         selectedToppings = [''A'', ''B'']\<rparr> ''A'' = Inr True
   \<and> isIngredientEnabled
        [(''small'', \<lparr>id = ''small'', name = ''Small'', price = Finite 8, maxToppings = 2\<rparr>)]
        \<lparr>selectedPizzaSize = ''small'', selectedPizzaCrust = ''thin'',
         selectedToppings = [''A'', ''B'']\<rparr> ''C'' = Inr False"
  using isIngredientEnabled_iff
      [of "[(''small'', \<lparr>id = ''small'', name = ''Small'', price = Finite 8, maxToppings = 2\<rparr>)]"
        "\<lparr>selectedPizzaSize = ''small'', selectedPizzaCrust = ''thin'',
          selectedToppings = [''A'', ''B'']\<rparr>"
        "\<lparr>id = ''small'', name = ''Small'', price = Finite 8, maxToppings = 2\<rparr>"]
  by simp

subsection \<open>Checkout\<close>

text \<open>
  C7. The checkout handler calls \<open>onCheckout\<close> once, with the order made of the selected
  size, crust and toppings, and returns the selection state as it was: for any callback the
  caller's world is the callback applied once to that order, and a callback that records its
  calls has exactly this one order more.
\<close>

theorem checkoutClick_once:
  "checkoutClick onCheckout s w =
     (s, onCheckout \<lparr>size = selectedPizzaSize s, crust = selectedPizzaCrust s,
                     toppings = Some (selectedToppings s)\<rparr> w)
   \<and> checkoutClick recordCall s calls =
       (s, calls @ [\<lparr>size = selectedPizzaSize s, crust = selectedPizzaCrust s,
                     toppings = Some (selectedToppings s)\<rparr>])
   \<and> length (snd (checkoutClick recordCall s calls)) = length calls + 1
   \<and> checkoutClick recordCall
        \<lparr>selectedPizzaSize = ''large'', selectedPizzaCrust = ''thin'',
         selectedToppings = [''A'', ''B'']\<rparr> []
       = (\<lparr>selectedPizzaSize = ''large'', selectedPizzaCrust = ''thin'',
           selectedToppings = [''A'', ''B'']\<rparr>,
          [\<lparr>size = ''large'', crust = ''thin'', toppings = Some [''A'', ''B'']\<rparr>])"
  by (simp add: checkoutClick_def recordCall_def)

subsection \<open>The automatic reset\<close>

lemma settle_at_rest: "\<not> exceedsMaxToppings ps s \<Longrightarrow> settle ps s = Some s"
  by (subst settle.simps) simp

lemma exceeds_after_reset:
  "exceedsMaxToppings ps (setSelectedToppings [] s) \<longleftrightarrow>
     (\<exists>sz. map_of ps (selectedPizzaSize s) = Some sz \<and> maxToppings sz < 0)"
  by (auto simp: exceedsMaxToppings_def setSelectedToppings_def split: option.splits)

lemma settle_nonneg:
  assumes "map_of ps (selectedPizzaSize s) = Some sz" "0 \<le> maxToppings sz"
  shows "settle ps s = Some (resetEffect ps s)"
proof (cases "exceedsMaxToppings ps s")
  case True
  have "\<not> exceedsMaxToppings ps (setSelectedToppings [] s)"
    using assms by (simp add: exceeds_after_reset)
  then have "settle ps (setSelectedToppings [] s) = Some (setSelectedToppings [] s)"
    by (rule settle_at_rest)
  then show ?thesis using True
    by (subst settle.simps) (simp add: resetEffect_def)
next
  case False
  then show ?thesis by (simp add: settle_at_rest resetEffect_def)
qed

lemma settle_cases:
  assumes "settle ps s = Some y"
  shows "y = s \<or> y = setSelectedToppings [] s"
proof (rule settle.raw_induct
    [where P = "\<lambda>ps s y. y = s \<or> y = setSelectedToppings [] s", OF _ assms])
  fix f :: "sizeCatalog \<Rightarrow> State \<Rightarrow> State option" and ps s y
  assume IH: "\<And>ps s y. f ps s = Some y \<Longrightarrow> y = s \<or> y = setSelectedToppings [] s"
    and eq: "(if exceedsMaxToppings ps s then f ps (resetEffect ps s) else Some s) = Some y"
  show "y = s \<or> y = setSelectedToppings [] s"
  proof (cases "exceedsMaxToppings ps s")
    case True
    with eq have "f ps (resetEffect ps s) = Some y" by simp
    then have "y = resetEffect ps s \<or> y = setSelectedToppings [] (resetEffect ps s)"
      by (rule IH)
    then show ?thesis using True
      by (auto simp: resetEffect_def setSelectedToppings_def)
  next
    case False
    with eq show ?thesis by simp
  qed
qed

text \<open>
  Outside the catalogs of the specification: for a negative \<open>maxToppings\<close> the effect fires
  on every run and the component does not come to rest.
\<close>

lemma settle_negative:
  assumes "map_of ps (selectedPizzaSize s) = Some sz" "maxToppings sz < 0"
  shows "settle ps s = None"
proof -
  have never: "\<not> (ps' = ps \<and> selectedPizzaSize s' = selectedPizzaSize s)"
    if run: "settle ps' s' = Some y" for ps' s' y
  proof (rule settle.raw_induct
      [where P = "\<lambda>ps' s' y. \<not> (ps' = ps \<and> selectedPizzaSize s' = selectedPizzaSize s)",
        OF _ run])
    fix f :: "sizeCatalog \<Rightarrow> State \<Rightarrow> State option" and ps' s' y
    assume IH: "\<And>ps' s' y. f ps' s' = Some y \<Longrightarrow>
                  \<not> (ps' = ps \<and> selectedPizzaSize s' = selectedPizzaSize s)"
      and eq: "(if exceedsMaxToppings ps' s' then f ps' (resetEffect ps' s') else Some s')
                 = Some y"
    show "\<not> (ps' = ps \<and> selectedPizzaSize s' = selectedPizzaSize s)"
    proof
      assume same: "ps' = ps \<and> selectedPizzaSize s' = selectedPizzaSize s"
      then have ex: "exceedsMaxToppings ps' s'"
        using assms by (simp add: exceedsMaxToppings_def)
      with eq have "f ps' (resetEffect ps' s') = Some y" by simp
      then have "\<not> (ps' = ps \<and> selectedPizzaSize (resetEffect ps' s') = selectedPizzaSize s)"
        by (rule IH)
      then show False using same ex by (simp add: resetEffect_def setSelectedToppings_def)
    qed
  qed
  show ?thesis
  proof (cases "settle ps s")
    case None
    then show ?thesis .
  next
    case (Some y)
    from never [OF Some] show ?thesis by simp
  qed
qed

lemma catalog_value:
  assumes "map_of ps k = Some sz"
  shows "sz \<in> set (objectValues ps)"
proof -
  from assms have "(k, sz) \<in> set ps" by (rule map_of_SomeD)
  then have "snd (k, sz) \<in> snd ` set ps" by (rule imageI)
  then show ?thesis by (simp add: objectValues_def)
qed

lemma catalog_key:
  "k \<in> fst ` set ps \<Longrightarrow> \<exists>sz. map_of ps k = Some sz"
  by (cases "map_of ps k") (auto simp: map_of_eq_None_iff)

lemma resetEffect_within:
  assumes "map_of ps (selectedPizzaSize s) = Some sz" "0 \<le> maxToppings sz"
  shows "withinMaxToppings ps (resetEffect ps s)"
  using assms
  by (auto simp: withinMaxToppings_def resetEffect_def exceedsMaxToppings_def
      setSelectedToppings_def)

lemma resetEffect_size: "selectedPizzaSize (resetEffect ps s) = selectedPizzaSize s"
  by (simp add: resetEffect_def setSelectedToppings_def)

lemma settle_within:
  assumes nonneg: "\<forall>sz \<in> set (objectValues ps). 0 \<le> maxToppings sz"
    and key: "selectedPizzaSize s \<in> fst ` set ps"
  shows "\<exists>s'. settle ps s = Some s' \<and> withinMaxToppings ps s'"
proof -
  from catalog_key [OF key]
  obtain sz where sz: "map_of ps (selectedPizzaSize s) = Some sz" ..
  from catalog_value [OF sz] nonneg have pos: "0 \<le> maxToppings sz" by simp
  have "settle ps s = Some (resetEffect ps s)"
    using sz pos by (rule settle_nonneg)
  moreover have "withinMaxToppings ps (resetEffect ps s)"
    using sz pos by (rule resetEffect_within)
  ultimately show ?thesis by simp
qed

lemma within_key:
  assumes "withinMaxToppings ps s"
  shows "selectedPizzaSize s \<in> fst ` set ps"
proof -
  from assms obtain sz where "map_of ps (selectedPizzaSize s) = Some sz"
    by (auto simp: withinMaxToppings_def split: option.splits)
  then have "(selectedPizzaSize s, sz) \<in> set ps" by (rule map_of_SomeD)
  then have "fst (selectedPizzaSize s, sz) \<in> fst ` set ps" by (rule imageI)
  then show ?thesis by simp
qed

lemma step_within:
  assumes nonneg: "\<forall>sz \<in> set (objectValues ps). 0 \<le> maxToppings sz"
    and inv: "withinMaxToppings ps s"
    and ok: "\<And>sizeId. e = SelectSize sizeId \<Longrightarrow> sizeId \<in> fst ` set ps"
  shows "\<exists>s'. step ps e s = Some s' \<and> withinMaxToppings ps s'"
proof (cases e)
  case (SelectSize sizeId)
  show ?thesis
  proof (cases "sizeId = selectedPizzaSize s")
    case True
    with SelectSize inv show ?thesis by simp
  next
    case False
    have "selectedPizzaSize (setSelectedPizzaSize sizeId s) \<in> fst ` set ps"
      using ok [OF SelectSize] by (simp add: setSelectedPizzaSize_def)
    from settle_within [OF nonneg this] show ?thesis
      using SelectSize False by simp
  qed
next
  case (SelectCrust crustId)
  with inv show ?thesis
    by (simp add: withinMaxToppings_def setSelectedPizzaCrust_def split: option.splits)
next
  case (ToggleTopping ingredientId)
  have "selectedPizzaSize (toggleTopping ingredientId s) \<in> fst ` set ps"
    using within_key [OF inv] by (simp add: toggleTopping_others)
  from settle_within [OF nonneg this] show ?thesis
    using ToggleTopping by simp
qed

lemma run_within:
  assumes nonneg: "\<forall>sz \<in> set (objectValues ps). 0 \<le> maxToppings sz"
  shows "withinMaxToppings ps s \<Longrightarrow>
         (\<forall>sizeId. SelectSize sizeId \<in> set es \<longrightarrow> sizeId \<in> fst ` set ps) \<Longrightarrow>
         \<exists>s'. run ps es s = Some s' \<and> withinMaxToppings ps s'"
proof (induction es arbitrary: s)
  case Nil
  then show ?case by simp
next
  case (Cons e es)
  have "\<And>sizeId. e = SelectSize sizeId \<Longrightarrow> sizeId \<in> fst ` set ps"
    using Cons.prems(2) by simp
  from step_within [OF nonneg Cons.prems(1) this]
  obtain s1 where s1: "step ps e s = Some s1" "withinMaxToppings ps s1"
    by blast
  have "\<forall>sizeId. SelectSize sizeId \<in> set es \<longrightarrow> sizeId \<in> fst ` set ps"
    using Cons.prems(2) by simp
  from Cons.IH [OF s1(2) this] show ?case
    using s1(1) by simp
qed

text \<open>
  C2. The catalog is the one of the specification: \<open>maxToppings\<close> is a maximum number of
  toppings, so it is not negative, and the size buttons carry ids of the catalog. From any
  starting order whose size is in the catalog, after mounting and after each click of any
  sequence of clicks, the component comes to rest, and the selected toppings are then no
  more than the selected size allows.
\<close>

theorem session_within:
  assumes nonneg: "\<forall>sz \<in> set (objectValues ps). 0 \<le> maxToppings sz"
    and start: "size pizza \<in> fst ` set ps"
    and sizes: "\<forall>sizeId. SelectSize sizeId \<in> set es \<longrightarrow> sizeId \<in> fst ` set ps"
  shows "\<exists>s'. session ps pizza (take n es) = Some s' \<and> withinMaxToppings ps s'"
proof -
  have "selectedPizzaSize (initialState pizza) \<in> fst ` set ps"
    using start by (simp add: initialState_def)
  from settle_within [OF nonneg this]
  obtain s0 where s0: "mount ps pizza = Some s0" "withinMaxToppings ps s0"
    by (auto simp: mount_def)
  have "\<forall>sizeId. SelectSize sizeId \<in> set (take n es) \<longrightarrow> sizeId \<in> fst ` set ps"
    using sizes by (blast dest: in_set_takeD)
  from run_within [OF nonneg s0(2) this] show ?thesis
    using s0(1) by (simp add: session_def)
qed

theorem session_within_witness:
  "list_all (\<lambda>sz. 0 \<le> maxToppings sz) (objectValues
        [(''small'', \<lparr>id = ''small'', name = ''Small'', price = Finite 8, maxToppings = 1\<rparr>)])
   \<and> size \<lparr>size = ''small'', crust = ''thin'', toppings = Some [''A'', ''B'']\<rparr>
       \<in> fst ` set [(''small'', \<lparr>id = ''small'', name = ''Small'', price = Finite 8, maxToppings = 1\<rparr>)]
   \<and> list_all (\<lambda>e. case e of
                      SelectSize sizeId \<Rightarrow> sizeId \<in> fst ` set
                        [(''small'', \<lparr>id = ''small'', name = ''Small'', price = Finite 8,
                                     maxToppings = 1\<rparr>)]
                    | _ \<Rightarrow> True)
         [ToggleTopping ''C'', SelectSize ''small'']
   \<and> session
         [(''small'', \<lparr>id = ''small'', name = ''Small'', price = Finite 8, maxToppings = 1\<rparr>)]
         \<lparr>size = ''small'', crust = ''thin'', toppings = Some [''A'', ''B'']\<rparr>
         (take 2 [ToggleTopping ''C'', SelectSize ''small''])
       = Some \<lparr>selectedPizzaSize = ''small'', selectedPizzaCrust = ''thin'',
               selectedToppings = [''C'']\<rparr>
   \<and> withinMaxToppings
         [(''small'', \<lparr>id = ''small'', name = ''Small'', price = Finite 8, maxToppings = 1\<rparr>)]
         \<lparr>selectedPizzaSize = ''small'', selectedPizzaCrust = ''thin'',
          selectedToppings = [''C'']\<rparr>"
proof -
  let ?sz = "\<lparr>id = ''small'', name = ''Small'', price = Finite 8, maxToppings = 1\<rparr>"
  let ?ps = "[(''small'', ?sz)]"
  let ?pizza = "\<lparr>size = ''small'', crust = ''thin'', toppings = Some [''A'', ''B'']\<rparr>"
  let ?es = "[ToggleTopping ''C'', SelectSize ''small'']"
  have h1: "\<forall>sz \<in> set (objectValues ?ps). 0 \<le> maxToppings sz"
    by (simp add: objectValues_def)
  have h2: "size ?pizza \<in> fst ` set ?ps" by simp
  have h3: "\<forall>sizeId. SelectSize sizeId \<in> set ?es \<longrightarrow> sizeId \<in> fst ` set ?ps"
    by simp
  have rest: "settle ?ps s = Some (resetEffect ?ps s)" if "selectedPizzaSize s = ''small''" for s
    by (rule settle_nonneg [where sz = ?sz]) (simp_all add: that)
  have final: "session ?ps ?pizza (take 2 ?es)
      = Some \<lparr>selectedPizzaSize = ''small'', selectedPizzaCrust = ''thin'',
              selectedToppings = [''C'']\<rparr>"
    by (simp add: session_def mount_def rest initialState_def resetEffect_def
        exceedsMaxToppings_def setSelectedToppings_def toggleTopping_def addTopping_def)
  from session_within [OF h1 h2 h3, of 2] final show ?thesis
    by (simp add: objectValues_def)
qed

text \<open>
  C3. When a size of the catalog is selected whose \<open>maxToppings\<close> is below the number of
  selected toppings, the effect sets the toppings to the empty list (it does not keep the
  first \<open>maxToppings\<close> of them), and keeps the new size and the crust; when that maximum is
  not negative, the component comes to rest in this state.
\<close>

theorem resetEffect_clears:
  assumes "map_of ps sizeId = Some sz"
    and "maxToppings sz < int (length (selectedToppings s))"
  shows "resetEffect ps (onClick (SelectSize sizeId) s) =
           \<lparr>selectedPizzaSize = sizeId, selectedPizzaCrust = selectedPizzaCrust s,
            selectedToppings = []\<rparr>
         \<and> (0 \<le> maxToppings sz \<longrightarrow>
              settle ps (onClick (SelectSize sizeId) s) =
                Some \<lparr>selectedPizzaSize = sizeId, selectedPizzaCrust = selectedPizzaCrust s,
                      selectedToppings = []\<rparr>)"
proof -
  let ?s1 = "onClick (SelectSize sizeId) s"
  have key: "map_of ps (selectedPizzaSize ?s1) = Some sz"
    using assms(1) by (simp add: setSelectedPizzaSize_def)
  have reset: "resetEffect ps ?s1 =
      \<lparr>selectedPizzaSize = sizeId, selectedPizzaCrust = selectedPizzaCrust s,
       selectedToppings = []\<rparr>"
    using assms
    by (simp add: resetEffect_def exceedsMaxToppings_def setSelectedPizzaSize_def
        setSelectedToppings_def)
  have "settle ps ?s1 = Some (resetEffect ps ?s1)" if "0 \<le> maxToppings sz"
    using key that by (rule settle_nonneg)
  with reset show ?thesis by simp
qed

theorem resetEffect_clears_witness:
  "map_of [(''small'', \<lparr>id = ''small'', name = ''Small'', price = Finite 8, maxToppings = 2\<rparr>),
           (''large'', \<lparr>id = ''large'', name = ''Large'', price = Finite 12, maxToppings = 3\<rparr>)]
      ''small'' = Some \<lparr>id = ''small'', name = ''Small'', price = Finite 8, maxToppings = 2\<rparr>
   \<and> maxToppings \<lparr>id = ''small'', name = ''Small'', price = Finite 8, maxToppings = 2\<rparr>
       < int (length (selectedToppings
           \<lparr>selectedPizzaSize = ''large'', selectedPizzaCrust = ''thin'',
            selectedToppings = [''A'', ''B'', ''C'']\<rparr>))
   \<and> step [(''small'', \<lparr>id = ''small'', name = ''Small'', price = Finite 8, maxToppings = 2\<rparr>),
            (''large'', \<lparr>id = ''large'', name = ''Large'', price = Finite 12, maxToppings = 3\<rparr>)]
        (SelectSize ''small'')
        \<lparr>selectedPizzaSize = ''large'', selectedPizzaCrust = ''thin'',
         selectedToppings = [''A'', ''B'', ''C'']\<rparr>
       = Some \<lparr>selectedPizzaSize = ''small'', selectedPizzaCrust = ''thin'',
               selectedToppings = []\<rparr>"
  using resetEffect_clears
      [of "[(''small'', \<lparr>id = ''small'', name = ''Small'', price = Finite 8, maxToppings = 2\<rparr>),
            (''large'', \<lparr>id = ''large'', name = ''Large'', price = Finite 12, maxToppings = 3\<rparr>)]"
        "''small''" "\<lparr>id = ''small'', name = ''Small'', price = Finite 8, maxToppings = 2\<rparr>"
        "\<lparr>selectedPizzaSize = ''large'', selectedPizzaCrust = ''thin'',
          selectedToppings = [''A'', ''B'', ''C'']\<rparr>"]
  by simp

subsection \<open>Unique topping ids\<close>

lemma toggleTopping_distinct:
  "distinct (selectedToppings s) \<Longrightarrow> distinct (selectedToppings (toggleTopping i s))"
  by (simp add: toggleTopping_toppings)

lemma onClick_distinct:
  "distinct (selectedToppings s) \<Longrightarrow> distinct (selectedToppings (onClick e s))"
  by (cases e)
    (simp_all add: toggleTopping_distinct setSelectedPizzaSize_def setSelectedPizzaCrust_def)

lemma settle_distinct:
  assumes "settle ps s = Some s'" and "distinct (selectedToppings s)"
  shows "distinct (selectedToppings s')"
  using settle_cases [OF assms(1)] assms(2) by (auto simp: setSelectedToppings_def)

lemma step_distinct:
  assumes "step ps e s = Some s'" and "distinct (selectedToppings s)"
  shows "distinct (selectedToppings s')"
proof (cases e)
  case (SelectSize sizeId)
  show ?thesis
  proof (cases "sizeId = selectedPizzaSize s")
    case True
    with assms SelectSize show ?thesis by simp
  next
    case False
    with assms(1) SelectSize have "settle ps (onClick e s) = Some s'" by simp
    then show ?thesis using onClick_distinct [OF assms(2)] by (rule settle_distinct)
  qed
next
  case (SelectCrust crustId)
  with assms(1) have "s' = onClick e s" by simp
  then show ?thesis using onClick_distinct [OF assms(2)] by simp
next
  case (ToggleTopping ingredientId)
  with assms(1) have "settle ps (onClick e s) = Some s'" by simp
  then show ?thesis using onClick_distinct [OF assms(2)] by (rule settle_distinct)
qed

lemma run_distinct:
  "run ps es s = Some s' \<Longrightarrow> distinct (selectedToppings s) \<Longrightarrow>
   distinct (selectedToppings s')"
proof (induction es arbitrary: s)
  case Nil
  then show ?case by simp
next
  case (Cons e es)
  from Cons.prems(1) obtain s1 where s1: "step ps e s = Some s1" "run ps es s1 = Some s'"
    by (auto split: option.splits)
  from s1(1) Cons.prems(2) have "distinct (selectedToppings s1)" by (rule step_distinct)
  with s1(2) show ?case by (rule Cons.IH)
qed

lemma fold_toggleTopping_distinct:
  "distinct (selectedToppings s) \<Longrightarrow>
   distinct (selectedToppings (fold toggleTopping ids s))"
  by (induction ids arbitrary: s) (simp_all add: toggleTopping_distinct)

text \<open>
  C8. If the selected topping ids are pairwise different, they are still so after any
  sequence of toggles, and in any state in which the component rests after a sequence of
  clicks of any kind, the automatic reset included.
\<close>

theorem selectedToppings_distinct:
  assumes "distinct (selectedToppings s)"
  shows "distinct (selectedToppings (fold toggleTopping ids s))
         \<and> (\<forall>ps es s'. run ps es s = Some s' \<longrightarrow> distinct (selectedToppings s'))"
  using assms fold_toggleTopping_distinct run_distinct by blast

theorem selectedToppings_distinct_witness:
  "distinct (selectedToppings
       \<lparr>selectedPizzaSize = ''large'', selectedPizzaCrust = ''thin'',
        selectedToppings = [''A'', ''B'']\<rparr>)
   \<and> selectedToppings (fold toggleTopping [''C'', ''A'', ''C'', ''D'']
       \<lparr>selectedPizzaSize = ''large'', selectedPizzaCrust = ''thin'',
        selectedToppings = [''A'', ''B'']\<rparr>) = [''B'', ''D'']
   \<and> distinct (selectedToppings (fold toggleTopping [''C'', ''A'', ''C'', ''D'']
       \<lparr>selectedPizzaSize = ''large'', selectedPizzaCrust = ''thin'',
        selectedToppings = [''A'', ''B'']\<rparr>))
   \<and> run [(''large'', \<lparr>id = ''large'', name = ''Large'', price = Finite 12, maxToppings = 3\<rparr>)]
        [ToggleTopping ''C'', SelectCrust ''thick'', ToggleTopping ''A'']
        \<lparr>selectedPizzaSize = ''large'', selectedPizzaCrust = ''thin'',
         selectedToppings = [''A'', ''B'']\<rparr>
       = Some \<lparr>selectedPizzaSize = ''large'', selectedPizzaCrust = ''thick'',
               selectedToppings = [''B'', ''C'']\<rparr>
   \<and> distinct [''B'', ''C'']"
proof -
  let ?sz = "\<lparr>id = ''large'', name = ''Large'', price = Finite 12, maxToppings = 3\<rparr>"
  let ?ps = "[(''large'', ?sz)]"
  let ?s = "\<lparr>selectedPizzaSize = ''large'', selectedPizzaCrust = ''thin'',
             selectedToppings = [''A'', ''B'']\<rparr>"
  have d: "distinct (selectedToppings ?s)" by simp
  have rest: "settle ?ps s = Some (resetEffect ?ps s)" if "selectedPizzaSize s = ''large''" for s
    by (rule settle_nonneg [where sz = ?sz]) (simp_all add: that)
  have r: "run ?ps [ToggleTopping ''C'', SelectCrust ''thick'', ToggleTopping ''A''] ?s
      = Some \<lparr>selectedPizzaSize = ''large'', selectedPizzaCrust = ''thick'',
              selectedToppings = [''B'', ''C'']\<rparr>"
    by (simp add: rest resetEffect_def exceedsMaxToppings_def setSelectedToppings_def
        setSelectedPizzaCrust_def toggleTopping_def addTopping_def removeTopping_def)
  have f: "selectedToppings (fold toggleTopping [''C'', ''A'', ''C'', ''D''] ?s) = [''B'', ''D'']"
    by (simp add: toggleTopping_def addTopping_def removeTopping_def setSelectedToppings_def)
  from selectedToppings_distinct [OF d, of "[''C'', ''A'', ''C'', ''D'']"] r f show ?thesis
    by simp
qed

subsection \<open>Rounding to a double\<close>

lemma floor_frac_bounds: "0 \<le> t - of_int \<lfloor>t\<rfloor> \<and> t - of_int \<lfloor>t\<rfloor> < (1::rat)"
  by linarith

lemma roundHalfEven_cases:
  "roundHalfEven t = \<lfloor>t\<rfloor> \<and> t - of_int \<lfloor>t\<rfloor> \<le> 1 / 2
   \<or> roundHalfEven t = \<lfloor>t\<rfloor> + 1 \<and> 1 / 2 \<le> t - of_int \<lfloor>t\<rfloor>"
  by (simp add: roundHalfEven_def Let_def)

lemma roundHalfEven_le_int:
  assumes "t \<le> of_int k"
  shows "roundHalfEven t \<le> k"
proof -
  have fl: "\<lfloor>t\<rfloor> \<le> k" using assms by (simp add: floor_le_iff)
  show ?thesis
  proof (cases "\<lfloor>t\<rfloor> = k")
    case True
    then have "t - of_int \<lfloor>t\<rfloor> \<le> 0" using assms by simp
    then have "roundHalfEven t = \<lfloor>t\<rfloor>"
      by (simp add: roundHalfEven_def Let_def)
    with True show ?thesis by simp
  next
    case False
    with fl have "\<lfloor>t\<rfloor> + 1 \<le> k" by simp
    then show ?thesis using roundHalfEven_cases [of t] by auto
  qed
qed

lemma roundHalfEven_nonneg:
  assumes "0 \<le> t"
  shows "0 \<le> roundHalfEven t"
proof -
  have "0 \<le> \<lfloor>t\<rfloor>" using assms by simp
  then show ?thesis using roundHalfEven_cases [of t] by auto
qed

lemma roundHalfEven_error: "\<bar>of_int (roundHalfEven t) - t\<bar> \<le> 1 / 2"
  using roundHalfEven_cases [of t] floor_frac_bounds [of t] by auto

lemma roundHalfEven_to_zero:
  assumes "0 \<le> t" and "t \<le> 1 / 2"
  shows "roundHalfEven t = 0"
proof -
  have "\<lfloor>t\<rfloor> = 0" using assms by (simp add: floor_eq_iff)
  then show ?thesis using assms by (simp add: roundHalfEven_def Let_def)
qed

lemma two_powi_less_cancel:
  assumes "(2::rat) powi a < 2 powi b"
  shows "a < b"
proof (rule ccontr)
  assume "\<not> a < b"
  then have "b \<le> a" by simp
  then have "(2::rat) powi b \<le> 2 powi a" by (rule power_int_increasing) simp
  with assms show False by simp
qed

lemma bitlen_powi_bounds:
  assumes "0 < p"
  shows "(2::rat) powi (bitlen p - 1) \<le> of_int p" and "of_int p < (2::rat) powi bitlen p"
proof -
  from bitlen_bounds [OF assms]
  have lo: "2 ^ nat (bitlen p - 1) \<le> p" and hi: "p < 2 ^ nat (bitlen p)" by simp_all
  have pos: "1 \<le> bitlen p" using assms by (simp add: bitlen_alt_def)
  have "(2::rat) powi (bitlen p - 1) = 2 ^ nat (bitlen p - 1)"
    using pos by (simp add: power_int_def)
  also have "\<dots> = of_int (2 ^ nat (bitlen p - 1))" by simp
  also have "\<dots> \<le> of_int p" using lo by (simp only: of_int_le_iff)
  finally show "(2::rat) powi (bitlen p - 1) \<le> of_int p" .
  have "(of_int p :: rat) < of_int (2 ^ nat (bitlen p))" using hi by (simp only: of_int_less_iff)
  also have "\<dots> = 2 ^ nat (bitlen p)" by simp
  also have "\<dots> = 2 powi bitlen p" using pos by (simp add: power_int_def)
  finally show "of_int p < (2::rat) powi bitlen p" .
qed

lemma floorLog2_bounds:
  assumes "0 < x"
  shows "2 powi floorLog2 x \<le> x" and "x < 2 powi (floorLog2 x + 1)"
proof -
  obtain p q where pq: "quotient_of x = (p, q)" by (cases "quotient_of x")
  then have q: "0 < q" by (rule quotient_of_denom_pos)
  have x: "x = of_int p / of_int q" using pq by (rule quotient_of_div)
  have p: "0 < p"
  proof (rule ccontr)
    assume "\<not> 0 < p"
    then have "of_int p \<le> (0::rat)" by simp
    then have "x \<le> 0" using q x by (simp add: divide_nonpos_pos)
    with assms show False by simp
  qed
  let ?d = "bitlen p - bitlen q"
  note bp = bitlen_powi_bounds [OF p] and bq = bitlen_powi_bounds [OF q]
  have qpos: "(0::rat) < of_int q" using q by simp
  have up: "x < 2 powi (?d + 1)"
  proof -
    have "x < 2 powi bitlen p / of_int q"
      unfolding x using bp(2) qpos by (simp add: divide_strict_right_mono)
    also have "\<dots> \<le> 2 powi bitlen p / 2 powi (bitlen q - 1)"
    proof (rule divide_left_mono)
      show "2 powi (bitlen q - 1) \<le> rat_of_int q" by (rule bq(1))
      show "(0::rat) \<le> 2 powi bitlen p" by (simp add: zero_le_power_int)
      have "(0::rat) < 2 powi (bitlen q - 1)" by (simp add: zero_less_power_int)
      with qpos show "0 < rat_of_int q * 2 powi (bitlen q - 1)" by (rule mult_pos_pos)
    qed
    also have "\<dots> = 2 powi (bitlen p - (bitlen q - 1))"
      by (simp add: power_int_diff)
    finally show ?thesis by (simp add: algebra_simps)
  qed
  have low: "2 powi (?d - 1) \<le> x"
  proof -
    have "(2::rat) powi (?d - 1) = 2 powi (bitlen p - 1 - bitlen q)"
      by (simp add: algebra_simps)
    also have "\<dots> = 2 powi (bitlen p - 1) / 2 powi bitlen q"
      by (simp add: power_int_diff)
    also have "\<dots> \<le> of_int p / 2 powi bitlen q"
      using bp(1) by (simp add: divide_right_mono)
    also have "\<dots> \<le> of_int p / of_int q"
    proof (rule divide_left_mono)
      show "rat_of_int q \<le> 2 powi bitlen q" using bq(2) by simp
      show "(0::rat) \<le> of_int p" using p by simp
      have "(0::rat) < 2 powi bitlen q" by (simp add: zero_less_power_int)
      then show "0 < 2 powi bitlen q * rat_of_int q" using qpos by (rule mult_pos_pos)
    qed
    finally show ?thesis by (simp add: x)
  qed
  have fl: "floorLog2 x = (if 2 powi ?d \<le> x then ?d else ?d - 1)"
    by (simp add: floorLog2_def pq Let_def)
  show "2 powi floorLog2 x \<le> x" using low by (simp add: fl)
  show "x < 2 powi (floorLog2 x + 1)" using up by (auto simp: fl)
qed

lemma floorLog2_unique:
  assumes "0 < x" and "2 powi e \<le> x" and "x < 2 powi (e + 1)"
  shows "floorLog2 x = e"
proof -
  have "(2::rat) powi e < 2 powi (floorLog2 x + 1)"
    using assms(2) floorLog2_bounds(2) [OF assms(1)] by simp
  then have "e < floorLog2 x + 1" by (rule two_powi_less_cancel)
  moreover have "(2::rat) powi floorLog2 x < 2 powi (e + 1)"
    using assms(3) floorLog2_bounds(1) [OF assms(1)] by simp
  then have "floorLog2 x < e + 1" by (rule two_powi_less_cancel)
  ultimately show ?thesis by simp
qed

lemma floorLog2_le:
  assumes "0 < x" and "x < 2 powi (k + 1)"
  shows "floorLog2 x \<le> k"
proof -
  have "(2::rat) powi floorLog2 x < 2 powi (k + 1)"
    using assms(2) floorLog2_bounds(1) [OF assms(1)] by simp
  then have "floorLog2 x < k + 1" by (rule two_powi_less_cancel)
  then show ?thesis by simp
qed


lemma roundDouble_nonzero:
  assumes "x \<noteq> 0"
  shows "roundDouble x =
    (if overflowThreshold \<le> of_int (roundHalfEven (\<bar>x\<bar> / 2 powi (max (floorLog2 \<bar>x\<bar>) (- 1022) - 52)))
                          * 2 powi (max (floorLog2 \<bar>x\<bar>) (- 1022) - 52)
     then (if 0 < x then PosInfinity else NegInfinity)
     else Finite (sgn x * (of_int (roundHalfEven (\<bar>x\<bar> / 2 powi (max (floorLog2 \<bar>x\<bar>) (- 1022) - 52)))
                          * 2 powi (max (floorLog2 \<bar>x\<bar>) (- 1022) - 52))))"
  using assms by (simp add: roundDouble_def Let_def)

lemma overflowThreshold_gt_1: "1 < overflowThreshold"
proof -
  have "(2::rat) powi 0 < 2 powi 1024" by (rule power_int_strict_increasing) simp_all
  then show ?thesis by (simp only: overflowThreshold_def power_int_0_right)
qed

lemma roundDouble_unit:
  assumes "0 < x" and "x \<le> 1"
  shows "\<exists>r. roundDouble x = Finite r \<and> 0 \<le> r \<and> r \<le> 1"
proof -
  let ?e = "max (floorLog2 x) (- 1022)"
  let ?ulp = "(2::rat) powi (?e - 52)"
  let ?n = "roundHalfEven (x / ?ulp)"
  have "x < 2 powi (0 + 1)" using assms(2) by simp
  with assms(1) have "floorLog2 x \<le> 0" by (rule floorLog2_le)
  then have e: "?e \<le> 0" by simp
  have ulp: "0 < ?ulp" by (simp add: zero_less_power_int)
  have inv: "1 / ?ulp = of_int (2 ^ nat (52 - ?e))"
  proof -
    have "1 / ?ulp = 2 powi (- (?e - 52))" by (rule power_int_minus_divide [symmetric])
    also have "\<dots> = 2 powi int (nat (52 - ?e))" using e by simp
    also have "\<dots> = 2 ^ nat (52 - ?e)" by (rule power_int_of_nat)
    finally show ?thesis by simp
  qed
  have "x / ?ulp \<le> 1 / ?ulp" using assms(2) ulp by (simp add: divide_right_mono)
  then have "x / ?ulp \<le> of_int (2 ^ nat (52 - ?e))" by (simp only: inv)
  then have n_le: "?n \<le> 2 ^ nat (52 - ?e)" by (rule roundHalfEven_le_int)
  have n_ge: "0 \<le> ?n" using assms(1) ulp by (intro roundHalfEven_nonneg) simp
  have "of_int ?n * ?ulp \<le> of_int (2 ^ nat (52 - ?e)) * ?ulp"
    using n_le ulp by (intro mult_right_mono) (simp_all only: of_int_le_iff less_imp_le)
  also have "\<dots> = 1" using ulp by (simp only: inv [symmetric]) simp
  finally have y_le: "of_int ?n * ?ulp \<le> 1" .
  have y_ge: "0 \<le> of_int ?n * ?ulp" using n_ge ulp by simp
  have "\<not> overflowThreshold \<le> of_int ?n * ?ulp" using y_le overflowThreshold_gt_1 by simp
  then have "roundDouble x = Finite (of_int ?n * ?ulp)"
    using assms(1) by (simp add: roundDouble_nonzero)
  with y_le y_ge show ?thesis by simp
qed

lemma roundDouble_underflow:
  assumes "0 < x" and "x \<le> 2 powi (- 1075)"
  shows "roundDouble x = Finite 0"
proof -
  have "(2::rat) powi (- 1075) < 2 powi (- 1075 + 1)"
    by (rule power_int_strict_increasing) simp_all
  with assms(2) have "x < 2 powi (- 1075 + 1)" by simp
  with assms(1) have "floorLog2 x \<le> - 1075" by (rule floorLog2_le)
  then have e: "max (floorLog2 x) (- 1022) = - 1022" by simp
  have half: "(2::rat) powi (- 1075) / 2 powi (- 1074) = 1 / 2"
  proof -
    have "(2::rat) powi (- 1075 - (- 1074)) = 2 powi (- 1075) / 2 powi (- 1074)"
      by (rule power_int_diff) simp
    then show ?thesis by simp
  qed
  have "x / 2 powi (- 1074) \<le> 2 powi (- 1075) / 2 powi (- 1074)"
    using assms(2) by (intro divide_right_mono) (simp_all add: zero_le_power_int)
  then have "x / 2 powi (- 1074) \<le> 1 / 2" by (simp only: half)
  moreover have "0 \<le> x / 2 powi (- 1074)"
    using assms(1) by (simp add: zero_le_power_int)
  ultimately have "roundHalfEven (x / 2 powi (- 1074)) = 0"
    by (intro roundHalfEven_to_zero)
  then show ?thesis
    using assms(1) overflowThreshold_gt_1 by (simp add: roundDouble_nonzero e)
qed

lemma roundDouble_normal:
  assumes "0 < x" and "2 powi e \<le> x" and "x < 2 powi (e + 1)"
    and "- 1022 \<le> e" and "e \<le> 1022"
  shows "roundDouble x =
           Finite (of_int (roundHalfEven (x / 2 powi (e - 52))) * 2 powi (e - 52))"
proof -
  let ?ulp = "(2::rat) powi (e - 52)"
  let ?n = "roundHalfEven (x / ?ulp)"
  have fl: "floorLog2 x = e" using assms(1-3) by (rule floorLog2_unique)
  have me: "max (floorLog2 x) (- 1022) = e" using fl assms(4) by simp
  have ulp: "0 < ?ulp" by (simp add: zero_less_power_int)
  have q: "2 powi (e + 1) / ?ulp = of_int (2 ^ 53)"
  proof -
    have "(2::rat) powi (e + 1 - (e - 52)) = 2 powi (e + 1) / ?ulp"
      by (rule power_int_diff) simp
    then have "(2::rat) powi (e + 1) / ?ulp = 2 powi (e + 1 - (e - 52))" by simp
    also have "\<dots> = 2 powi int 53" by simp
    also have "\<dots> = 2 ^ 53" by (rule power_int_of_nat)
    finally show ?thesis by simp
  qed
  have "x / ?ulp \<le> 2 powi (e + 1) / ?ulp"
    using assms(3) ulp by (intro divide_right_mono) simp_all
  then have "x / ?ulp \<le> of_int (2 ^ 53)" by (simp only: q)
  then have "?n \<le> 2 ^ 53" by (rule roundHalfEven_le_int)
  then have "of_int ?n * ?ulp \<le> of_int (2 ^ 53) * ?ulp"
    using ulp by (intro mult_right_mono) (simp_all only: of_int_le_iff less_imp_le)
  also have "\<dots> = 2 powi (e + 1)" using ulp by (simp only: q [symmetric]) simp
  also have "\<dots> \<le> 2 powi 1023" using assms(5) by (intro power_int_increasing) simp_all
  also have "\<dots> < 2 powi 1024" by (rule power_int_strict_increasing) simp_all
  finally have "\<not> overflowThreshold \<le> of_int ?n * ?ulp"
    by (simp only: overflowThreshold_def not_le)
  then show ?thesis using assms(1) by (simp add: roundDouble_nonzero me)
qed

lemma roundDouble_error:
  assumes "x \<noteq> 0" and "roundDouble x = Finite r"
  shows "\<bar>r - x\<bar> \<le> 2 powi (max (floorLog2 \<bar>x\<bar>) (- 1022) - 53)"
proof -
  let ?e = "max (floorLog2 \<bar>x\<bar>) (- 1022)"
  let ?ulp = "(2::rat) powi (?e - 52)"
  let ?n = "roundHalfEven (\<bar>x\<bar> / ?ulp)"
  have ulp: "0 < ?ulp" by (simp add: zero_less_power_int)
  have r: "r = sgn x * (of_int ?n * ?ulp)"
    using assms by (simp add: roundDouble_nonzero split: if_splits)
  have sx: "sgn x * \<bar>x\<bar> = x" by (rule sgn_mult_abs)
  have "r - x = sgn x * (of_int ?n * ?ulp) - sgn x * \<bar>x\<bar>" by (simp only: r sx)
  also have "\<dots> = sgn x * (of_int ?n * ?ulp - \<bar>x\<bar>)" by (simp only: right_diff_distrib)
  finally have "\<bar>r - x\<bar> = \<bar>sgn x\<bar> * \<bar>of_int ?n * ?ulp - \<bar>x\<bar>\<bar>"
    by (simp only: abs_mult)
  also have "\<dots> = \<bar>of_int ?n * ?ulp - \<bar>x\<bar>\<bar>"
    using assms(1) by (simp add: abs_sgn_eq)
  also have "\<dots> = \<bar>of_int ?n - \<bar>x\<bar> / ?ulp\<bar> * ?ulp"
  proof -
    have "of_int ?n * ?ulp - \<bar>x\<bar> = (of_int ?n - \<bar>x\<bar> / ?ulp) * ?ulp"
      using ulp by (simp add: field_simps)
    then show ?thesis using ulp by (simp add: abs_mult)
  qed
  also have "\<dots> \<le> 1 / 2 * ?ulp"
    using roundHalfEven_error [of "\<bar>x\<bar> / ?ulp"] ulp by (intro mult_right_mono) simp_all
  also have "\<dots> = 2 powi (?e - 53)"
  proof -
    have "(2::rat) powi (?e - 53) = 2 powi (?e - 52 - 1)" by (simp add: algebra_simps)
    also have "\<dots> = 2 powi (?e - 52) / 2 powi 1" by (rule power_int_diff) simp
    finally show ?thesis by simp
  qed
  finally show ?thesis .
qed

lemma floor_rat_numeral_divide:
  "\<lfloor>(numeral a :: rat) / numeral b\<rfloor> = numeral a div numeral b"
proof -
  have "\<lfloor>(of_int (numeral a) :: rat) / of_int (numeral b)\<rfloor> = numeral a div numeral b"
    by (rule floor_divide_of_int_eq)
  then show ?thesis by simp
qed

lemma roundDouble_1: "roundDouble 1 = Finite 1"
  using roundDouble_normal [of 1 0]
  by (simp add: roundHalfEven_def power_int_minus Let_def floor_rat_numeral_divide)

lemma roundDouble_100: "roundDouble 100 = Finite 100"
  using roundDouble_normal [of 100 6]
  by (simp add: roundHalfEven_def power_int_minus Let_def floor_rat_numeral_divide)

lemma roundDouble_unit_error:
  assumes "0 < x" and "x \<le> 1"
  shows "\<exists>s. roundDouble x = Finite s \<and> 0 \<le> s \<and> s \<le> 1 \<and> \<bar>s - x\<bar> \<le> 2 powi (- 53)"
proof -
  from roundDouble_unit [OF assms]
  obtain s where s: "roundDouble x = Finite s" "0 \<le> s" "s \<le> 1" by blast
  have "x < 2 powi (0 + 1)" using assms(2) by simp
  with assms(1) have "floorLog2 x \<le> 0" by (rule floorLog2_le)
  then have e: "max (floorLog2 \<bar>x\<bar>) (- 1022) - 53 \<le> - 53" using assms(1) by simp
  have "\<bar>s - x\<bar> \<le> 2 powi (max (floorLog2 \<bar>x\<bar>) (- 1022) - 53)"
    using assms(1) s(1) by (intro roundDouble_error) simp_all
  also have "\<dots> \<le> 2 powi (- 53)" using e by (rule power_int_increasing) simp
  finally show ?thesis using s by blast
qed

subsection \<open>Relative size of the size pictures\<close>

lemma fold_jsMax_Finite:
  "fold jsMax (map Finite rs) (Finite a) = Finite (fold max rs a)"
  by (induction rs arbitrary: a) simp_all

lemma mathMax_Finite:
  assumes "rs \<noteq> []"
  shows "mathMax (map Finite rs) = Finite (Max (set rs))"
proof (cases rs)
  case Nil
  with assms show ?thesis by simp
next
  case (Cons r rs')
  have "mathMax (map Finite (r # rs')) = Finite (fold max rs' r)"
    by (simp add: mathMax_def fold_jsMax_Finite)
  also have "fold max rs' r = Max (set (r # rs'))"
    by (rule Max.set_eq_fold [symmetric])
  finally show ?thesis by (simp only: Cons)
qed

lemma maxPrice_Finite:
  assumes "pizzaSizes \<noteq> []"
    and "map price (objectValues pizzaSizes) = map Finite rs"
  shows "maxPrice pizzaSizes = Finite (Max (set rs))"
proof -
  have "length (map price (objectValues pizzaSizes)) = length (map Finite rs)"
    by (simp only: assms(2))
  then have "rs \<noteq> []" using assms(1) by (auto simp: objectValues_def)
  then show ?thesis by (simp add: maxPrice_def assms(2) mathMax_Finite)
qed

lemma price_in_values:
  assumes "map price (objectValues pizzaSizes) = map Finite rs"
    and "sz \<in> set (objectValues pizzaSizes)"
    and "price sz = Finite r"
  shows "r \<in> set rs"
proof -
  have "price sz \<in> set (map price (objectValues pizzaSizes))"
    using assms(2) by simp
  then have "Finite r \<in> set (map Finite rs)" by (simp only: assms(1) assms(3))
  then show ?thesis by auto
qed

text \<open>
  C9, as the specification states it: in every catalog with at least one size, the scale of
  a size equals its price divided by the highest price, the most expensive size has the
  scale 1, that is 100 percent, and every scale lies in \<open>(0, 1]\<close> when all prices are
  positive. It fails in four ways. With the highest price 0 the quotient \<open>0 / 0\<close> is \<open>NaN\<close>.
  With an infinite price, which is positive, the quotient \<open>Infinity / Infinity\<close> is \<open>NaN\<close>.
  With the positive prices \<open>2 ^ - 1000\<close> and \<open>2 ^ 100\<close> the quotient of the cheaper size
  underflows to 0. With the prices 8 and 12 the scale of the cheaper size is the double next
  to two thirds, not two thirds.
\<close>

theorem imageSize_counterexample:
  "imageSize [(''free'', \<lparr>id = ''free'', name = ''Free'', price = Finite 0, maxToppings = 1\<rparr>)]
      \<lparr>id = ''free'', name = ''Free'', price = Finite 0, maxToppings = 1\<rparr> = NaN
   \<and> imageSize [(''gold'', \<lparr>id = ''gold'', name = ''Gold'', price = PosInfinity, maxToppings = 1\<rparr>)]
      \<lparr>id = ''gold'', name = ''Gold'', price = PosInfinity, maxToppings = 1\<rparr> = NaN
   \<and> jsDivide (Finite (1 / 2 ^ 1000))
        (maxPrice
          [(''tiny'', \<lparr>id = ''tiny'', name = ''Tiny'', price = Finite (1 / 2 ^ 1000),
                       maxToppings = 1\<rparr>),
           (''huge'', \<lparr>id = ''huge'', name = ''Huge'', price = Finite (2 ^ 100),
                       maxToppings = 9\<rparr>)]) = Finite 0
   \<and> imageSize
        [(''tiny'', \<lparr>id = ''tiny'', name = ''Tiny'', price = Finite (1 / 2 ^ 1000),
                     maxToppings = 1\<rparr>),
         (''huge'', \<lparr>id = ''huge'', name = ''Huge'', price = Finite (2 ^ 100),
                     maxToppings = 9\<rparr>)]
        \<lparr>id = ''tiny'', name = ''Tiny'', price = Finite (1 / 2 ^ 1000), maxToppings = 1\<rparr>
       = Finite 0
   \<and> jsDivide (Finite 8)
        (maxPrice
          [(''small'', \<lparr>id = ''small'', name = ''Small'', price = Finite 8, maxToppings = 2\<rparr>),
           (''large'', \<lparr>id = ''large'', name = ''Large'', price = Finite 12,
                        maxToppings = 3\<rparr>)])
       = Finite (6004799503160661 / 2 ^ 53)
   \<and> (6004799503160661 / 2 ^ 53 :: rat) \<noteq> 8 / 12"
proof -
  define a :: rat where "a = 1 / 2 ^ 1000"
  define b :: rat where "b = 2 ^ 100"
  have ab: "0 < a" "a \<le> b" "b \<noteq> 0" "0 < a / b" "a / b \<le> 2 powi (- 1075)"
    by (simp_all add: a_def b_def power_int_minus)
  have under: "roundDouble (a / b) = Finite 0"
    using ab(4) ab(5) by (rule roundDouble_underflow)
  have zero: "roundDouble 0 = Finite 0" by (simp add: roundDouble_def)
  have m: "max a b = b" using ab(2) by (simp add: max_def)
  have tiny: "jsDivide (Finite a)
        (maxPrice [(''tiny'', \<lparr>id = ''tiny'', name = ''Tiny'', price = Finite a, maxToppings = 1\<rparr>),
                   (''huge'', \<lparr>id = ''huge'', name = ''Huge'', price = Finite b, maxToppings = 9\<rparr>)])
      = Finite 0"
    using ab(3) by (simp add: maxPrice_def mathMax_def objectValues_def m max.commute under)
  have tiny100: "imageSize
        [(''tiny'', \<lparr>id = ''tiny'', name = ''Tiny'', price = Finite a, maxToppings = 1\<rparr>),
         (''huge'', \<lparr>id = ''huge'', name = ''Huge'', price = Finite b, maxToppings = 9\<rparr>)]
        \<lparr>id = ''tiny'', name = ''Tiny'', price = Finite a, maxToppings = 1\<rparr> = Finite 0"
    by (simp add: imageSize_def tiny zero)
  have free: "imageSize
      [(''free'', \<lparr>id = ''free'', name = ''Free'', price = Finite 0, maxToppings = 1\<rparr>)]
      \<lparr>id = ''free'', name = ''Free'', price = Finite 0, maxToppings = 1\<rparr> = NaN"
    by (simp add: imageSize_def maxPrice_def mathMax_def objectValues_def)
  have gold: "imageSize
      [(''gold'', \<lparr>id = ''gold'', name = ''Gold'', price = PosInfinity, maxToppings = 1\<rparr>)]
      \<lparr>id = ''gold'', name = ''Gold'', price = PosInfinity, maxToppings = 1\<rparr> = NaN"
    by (simp add: imageSize_def maxPrice_def mathMax_def objectValues_def)
  have q: "roundDouble (8 / 12) = Finite (6004799503160661 / 2 ^ 53)"
    using roundDouble_normal [of "8 / 12" "- 1"]
    by (simp add: roundHalfEven_def power_int_minus Let_def floor_rat_numeral_divide)
  have small: "jsDivide (Finite 8)
        (maxPrice
          [(''small'', \<lparr>id = ''small'', name = ''Small'', price = Finite 8, maxToppings = 2\<rparr>),
           (''large'', \<lparr>id = ''large'', name = ''Large'', price = Finite 12,
                        maxToppings = 3\<rparr>)])
      = roundDouble (8 / 12)"
    by (simp add: maxPrice_def mathMax_def objectValues_def)
  have ne: "(6004799503160661 / 2 ^ 53 :: rat) \<noteq> 8 / 12" by simp
  from free gold tiny tiny100 small ne show ?thesis
    by (simp only: a_def b_def q simp_thms)
qed

text \<open>
  C9, amended. In a catalog with at least one size whose prices are finite and whose highest
  price is not 0: the scale of a size is the quotient of its price by the highest price of
  the catalog, rounded to a double, and the number emitted is that scale times 100, rounded
  again; a size with the highest price gets the scale 1 and the number 100; and when all
  prices are positive every scale is a finite number from 0 to 1, at most \<open>2 ^ - 53\<close> away
  from the exact quotient (so the scale 0 appears only by underflow).
\<close>

theorem imageSize_quotient:
  assumes nonempty: "pizzaSizes \<noteq> []"
    and finite: "map price (objectValues pizzaSizes) = map Finite rs"
    and nonzero: "Max (set rs) \<noteq> 0"
  shows "maxPrice pizzaSizes = Finite (Max (set rs))
         \<and> (\<forall>sz \<in> set (objectValues pizzaSizes). \<forall>r. price sz = Finite r \<longrightarrow>
              jsDivide (price sz) (maxPrice pizzaSizes) = roundDouble (r / Max (set rs))
              \<and> imageSize pizzaSizes sz
                  = jsTimes (roundDouble (r / Max (set rs))) (Finite 100)
              \<and> (r = Max (set rs) \<longrightarrow>
                    jsDivide (price sz) (maxPrice pizzaSizes) = Finite 1
                    \<and> imageSize pizzaSizes sz = Finite 100)
              \<and> ((\<forall>r' \<in> set rs. 0 < r') \<longrightarrow>
                    (\<exists>s. jsDivide (price sz) (maxPrice pizzaSizes) = Finite s
                         \<and> 0 \<le> s \<and> s \<le> 1
                         \<and> \<bar>s - r / Max (set rs)\<bar> \<le> 2 powi (- 53))))"
proof -
  let ?M = "Max (set rs)"
  have mp: "maxPrice pizzaSizes = Finite ?M"
    using nonempty finite by (rule maxPrice_Finite)
  have quot: "jsDivide (Finite r) (Finite ?M) = roundDouble (r / ?M)" for r
    using nonzero by simp
  have top: "roundDouble (?M / ?M) = Finite 1"
    using nonzero by (simp add: roundDouble_1)
  have hundred: "jsTimes (Finite 1) (Finite 100) = Finite 100"
    by (simp add: roundDouble_100)
  have range: "\<exists>s. roundDouble (r / ?M) = Finite s \<and> 0 \<le> s \<and> s \<le> 1
                  \<and> \<bar>s - r / ?M\<bar> \<le> 2 powi (- 53)"
    if pos: "\<forall>r' \<in> set rs. 0 < r'" and mem: "r \<in> set rs" for r
  proof -
    have ne: "set rs \<noteq> {}" using mem by auto
    have "?M \<in> set rs" using ne by (intro Max_in) simp
    then have M: "0 < ?M" using pos by simp
    have "r \<le> ?M" using mem by (intro Max_ge) simp_all
    moreover have "0 < r" using pos mem by simp
    ultimately have "0 < r / ?M" "r / ?M \<le> 1" using M by simp_all
    then show ?thesis by (rule roundDouble_unit_error)
  qed
  have each: "jsDivide (price sz) (maxPrice pizzaSizes) = roundDouble (r / ?M)
      \<and> imageSize pizzaSizes sz = jsTimes (roundDouble (r / ?M)) (Finite 100)
      \<and> (r = ?M \<longrightarrow>
            jsDivide (price sz) (maxPrice pizzaSizes) = Finite 1
            \<and> imageSize pizzaSizes sz = Finite 100)
      \<and> ((\<forall>r' \<in> set rs. 0 < r') \<longrightarrow>
            (\<exists>s. jsDivide (price sz) (maxPrice pizzaSizes) = Finite s
                 \<and> 0 \<le> s \<and> s \<le> 1 \<and> \<bar>s - r / ?M\<bar> \<le> 2 powi (- 53)))"
    if mem: "sz \<in> set (objectValues pizzaSizes)" and r: "price sz = Finite r" for sz r
  proof -
    have d: "jsDivide (price sz) (maxPrice pizzaSizes) = roundDouble (r / ?M)"
      by (simp only: r mp quot)
    have i: "imageSize pizzaSizes sz = jsTimes (roundDouble (r / ?M)) (Finite 100)"
      by (simp only: imageSize_def d)
    have t: "jsDivide (price sz) (maxPrice pizzaSizes) = Finite 1
             \<and> imageSize pizzaSizes sz = Finite 100" if "r = ?M"
      using that top hundred by (simp only: d i)
    have rs: "r \<in> set rs" using finite mem r by (rule price_in_values)
    have "\<exists>s. jsDivide (price sz) (maxPrice pizzaSizes) = Finite s
             \<and> 0 \<le> s \<and> s \<le> 1 \<and> \<bar>s - r / ?M\<bar> \<le> 2 powi (- 53)"
      if "\<forall>r' \<in> set rs. 0 < r'"
      using range [OF that rs] by (simp only: d)
    with d i t show ?thesis by blast
  qed
  from mp each show ?thesis by blast
qed

theorem imageSize_quotient_witness:
  "[(''small'', \<lparr>id = ''small'', name = ''Small'', price = Finite 8, maxToppings = 2\<rparr>),
    (''large'', \<lparr>id = ''large'', name = ''Large'', price = Finite 12, maxToppings = 3\<rparr>)] \<noteq> []
   \<and> map price (objectValues
        [(''small'', \<lparr>id = ''small'', name = ''Small'', price = Finite 8, maxToppings = 2\<rparr>),
         (''large'', \<lparr>id = ''large'', name = ''Large'', price = Finite 12, maxToppings = 3\<rparr>)])
       = map Finite [8, 12]
   \<and> Max (set [8, 12 :: rat]) \<noteq> 0
   \<and> list_all (\<lambda>r. 0 < r) [8, 12 :: rat]
   \<and> imageSize
        [(''small'', \<lparr>id = ''small'', name = ''Small'', price = Finite 8, maxToppings = 2\<rparr>),
         (''large'', \<lparr>id = ''large'', name = ''Large'', price = Finite 12, maxToppings = 3\<rparr>)]
        \<lparr>id = ''small'', name = ''Small'', price = Finite 8, maxToppings = 2\<rparr>
       = Finite (2345624805922133 / 2 ^ 45)
   \<and> imageSize
        [(''small'', \<lparr>id = ''small'', name = ''Small'', price = Finite 8, maxToppings = 2\<rparr>),
         (''large'', \<lparr>id = ''large'', name = ''Large'', price = Finite 12, maxToppings = 3\<rparr>)]
        \<lparr>id = ''large'', name = ''Large'', price = Finite 12, maxToppings = 3\<rparr> = Finite 100"
proof -
  let ?small = "\<lparr>id = ''small'', name = ''Small'', price = Finite 8, maxToppings = 2\<rparr>"
  let ?large = "\<lparr>id = ''large'', name = ''Large'', price = Finite 12, maxToppings = 3\<rparr>"
  let ?ps = "[(''small'', ?small), (''large'', ?large)]"
  have h1: "?ps \<noteq> []" by simp
  have h2: "map price (objectValues ?ps) = map Finite [8, 12]"
    by (simp add: objectValues_def)
  have M: "Max (set [8, 12 :: rat]) = 12" by simp
  then have h3: "Max (set [8, 12 :: rat]) \<noteq> 0" by simp
  have q: "roundDouble (8 / 12) = Finite (6004799503160661 / 2 ^ 53)"
    using roundDouble_normal [of "8 / 12" "- 1"]
    by (simp add: roundHalfEven_def power_int_minus Let_def floor_rat_numeral_divide)
  have p: "roundDouble (6004799503160661 / 2 ^ 53 * 100) = Finite (2345624805922133 / 2 ^ 45)"
    using roundDouble_normal [of "6004799503160661 / 2 ^ 53 * 100" 6]
    by (simp add: roundHalfEven_def power_int_minus Let_def floor_rat_numeral_divide)
  have mem: "?small \<in> set (objectValues ?ps)" "?large \<in> set (objectValues ?ps)"
    by (simp_all add: objectValues_def)
  from imageSize_quotient [OF h1 h2 h3]
  have all: "\<forall>sz \<in> set (objectValues ?ps). \<forall>r. price sz = Finite r \<longrightarrow>
      imageSize ?ps sz = jsTimes (roundDouble (r / Max (set [8, 12]))) (Finite 100)
      \<and> (r = Max (set [8, 12]) \<longrightarrow> imageSize ?ps sz = Finite 100)"
    by blast
  have ps: "price ?small = Finite 8" and pl: "price ?large = Finite 12" by simp_all
  from all mem(1) ps
  have "imageSize ?ps ?small = jsTimes (roundDouble (8 / Max (set [8, 12]))) (Finite 100)"
    by blast
  then have small: "imageSize ?ps ?small = Finite (2345624805922133 / 2 ^ 45)"
    by (simp only: M q jsTimes.simps p)
  from all mem(2) pl
  have "12 = Max (set [8, 12 :: rat]) \<longrightarrow> imageSize ?ps ?large = Finite 100"
    by blast
  then have large: "imageSize ?ps ?large = Finite 100"
    by (simp only: M simp_thms)
  from h1 h2 h3 small large show ?thesis by simp
qed

end
